theory Spec2Isabelle
  imports Main "HOL-Library.Multiset"
begin

section \<open>Strings of the editor\<close>

text \<open>
  The action works on JavaScript strings: sequences of UTF-16 code units, whose
  \<open>length\<close> counts code units. A code unit is modelled by its number (below 65536 in
  every real string; no operation below depends on that bound). Literals of the source
  are ASCII and are written through \<open>js\<close>.
\<close>

type_synonym code_unit = nat
type_synonym ustring = "code_unit list"

definition cu :: "char \<Rightarrow> code_unit" where
  "cu c = of_char c"

definition js :: "string \<Rightarrow> ustring" where
  "js s = map cu s"

definition LF :: code_unit where
  "LF = 10"

text \<open>
  White space of ECMAScript (WhiteSpace and LineTerminator): what \<open>trim\<close>,
  \<open>trimStart\<close> and the class \<open>\s\<close> of a regular expression recognise.
\<close>

definition isWhiteSpace :: "code_unit \<Rightarrow> bool" where
  "isWhiteSpace x =
     (x \<in> {9, 10, 11, 12, 13, 32, 160, 5760, 8232, 8233, 8239, 8287, 12288, 65279}
      \<or> (8192 \<le> x \<and> x \<le> 8202))"

text \<open>The class \<open>\w\<close>: \<open>[A-Za-z0-9_]\<close>.\<close>

definition isWordChar :: "code_unit \<Rightarrow> bool" where
  "isWordChar x =
     ((97 \<le> x \<and> x \<le> 122) \<or> (65 \<le> x \<and> x \<le> 90) \<or> (48 \<le> x \<and> x \<le> 57) \<or> x = 95)"

text \<open>A bracket class of literal characters, as \<open>[=;]\<close>.\<close>

definition oneOf :: "string \<Rightarrow> code_unit \<Rightarrow> bool" where
  "oneOf cs x = (x \<in> set (js cs))"

text \<open>The class \<open>[\w<>]\<close>.\<close>

definition isWordOrAngle :: "code_unit \<Rightarrow> bool" where
  "isWordOrAngle x = (isWordChar x \<or> oneOf ''<>'' x)"

definition trimStart :: "ustring \<Rightarrow> ustring" where
  "trimStart s = dropWhile isWhiteSpace s"

definition trimEnd :: "ustring \<Rightarrow> ustring" where
  "trimEnd s = rev (dropWhile isWhiteSpace (rev s))"

definition trim :: "ustring \<Rightarrow> ustring" where
  "trim s = trimEnd (trimStart s)"

text \<open>
  \<open>selectedText.split('\n')\<close>: the pieces between line feeds; a text without a line
  feed is one piece, the empty text included.
\<close>

fun split_lines :: "ustring \<Rightarrow> ustring list" where
  "split_lines [] = [[]]"
| "split_lines (x # xs) =
     (if x = LF then [] # split_lines xs
      else (case split_lines xs of
              [] \<Rightarrow> [[x]]
            | l # ls \<Rightarrow> (x # l) # ls))"

text \<open>
  A count interpolated in a template literal: its decimal digits.
\<close>

function numberToString :: "nat \<Rightarrow> ustring" where
  "numberToString n =
     (if n < 10 then [48 + n] else numberToString (n div 10) @ [48 + n mod 10])"
  by pat_completeness auto
termination
  by (relation "measure (\<lambda>n. n)") auto

declare numberToString.simps [simp del]

section \<open>Regular expressions\<close>

text \<open>
  The patterns of the source use literals, the classes \<open>\s\<close>, \<open>\w\<close> and bracket
  classes, sequence, alternation, the greedy quantifiers \<open>*\<close>, \<open>+\<close>, \<open>?\<close>, numbered
  capturing groups and the anchor \<open>^\<close>. \<open>Eps\<close> is the empty pattern (the body of an
  empty sequence).
\<close>

datatype re =
    Eps
  | Bol
  | Chr code_unit
  | Cls "code_unit \<Rightarrow> bool"
  | Seq re re
  | Alt re re
  | Star re
  | Plus re
  | Opt re
  | Grp nat re

text \<open>
  A match state is the input still to be read and the captures so far, by group number.
\<close>

type_synonym caps = "nat \<Rightarrow> ustring option"
type_synonym mstate = "ustring \<times> caps"

text \<open>
  Canonicalize of a pattern without the \<open>u\<close> flag: under \<open>i\<close> a code unit is compared
  through its upper case. Only the ASCII letters are folded here: a code unit from 128
  on never canonicalizes to one below 128, so against the ASCII literals and classes of
  the patterns below every other code unit compares as itself.
\<close>

definition canonicalize :: "bool \<Rightarrow> code_unit \<Rightarrow> code_unit" where
  "canonicalize ci x = (if ci \<and> 97 \<le> x \<and> x \<le> 122 then x - 32 else x)"

text \<open>
  A class matches a code unit when one of its members canonicalizes to the same value.
\<close>

definition clsMatch :: "bool \<Rightarrow> (code_unit \<Rightarrow> bool) \<Rightarrow> code_unit \<Rightarrow> bool" where
  "clsMatch ci P x =
     (let y = canonicalize ci x in P y \<or> (ci \<and> 65 \<le> y \<and> y \<le> 90 \<and> P (y + 32)))"

primrec groups :: "re \<Rightarrow> nat list" where
  "groups Eps = []"
| "groups Bol = []"
| "groups (Chr p) = []"
| "groups (Cls P) = []"
| "groups (Seq r1 r2) = groups r1 @ groups r2"
| "groups (Alt r1 r2) = groups r1 @ groups r2"
| "groups (Star r) = groups r"
| "groups (Plus r) = groups r"
| "groups (Opt r) = groups r"
| "groups (Grp k r) = k # groups r"

primrec weight :: "re \<Rightarrow> nat" where
  "weight Eps = 0"
| "weight Bol = 0"
| "weight (Chr p) = 0"
| "weight (Cls P) = 0"
| "weight (Seq r1 r2) = Suc (weight r1 + weight r2)"
| "weight (Alt r1 r2) = Suc (weight r1 + weight r2)"
| "weight (Star r) = Suc (weight r)"
| "weight (Plus r) = Suc (Suc (weight r))"
| "weight (Opt r) = Suc (weight r)"
| "weight (Grp k r) = Suc (weight r)"

text \<open>An iteration of a quantifier that reads nothing is not continued.\<close>

definition progress :: "mstate \<Rightarrow> mstate \<Rightarrow> bool" where
  "progress st st' = (length (fst st') < length (fst st))"

text \<open>Each iteration of a quantifier starts with the captures of its body undefined.\<close>

definition reset :: "re \<Rightarrow> mstate \<Rightarrow> mstate" where
  "reset r st = (fst st, (\<lambda>k. if k \<in> set (groups r) then None else snd st k))"

text \<open>Leaving group \<open>k\<close>: it captures what was read since the state \<open>st\<close>.\<close>

definition capture :: "nat \<Rightarrow> mstate \<Rightarrow> mstate \<Rightarrow> mstate" where
  "capture k st st' =
     (fst st', (snd st')(k := Some (take (length (fst st) - length (fst st')) (fst st))))"

text \<open>
  The backtracking matcher. \<open>ms ci inp r st\<close> lists, in the order in which backtracking
  tries them, the states in which a match of \<open>r\<close> started in \<open>st\<close> can end; \<open>ci\<close> is
  the flag \<open>i\<close> and \<open>inp\<close> the whole input. Quantifiers are greedy: one more
  iteration is tried before stopping.
\<close>

function (sequential) ms :: "bool \<Rightarrow> ustring \<Rightarrow> re \<Rightarrow> mstate \<Rightarrow> mstate list" where
  "ms ci inp Eps st = [st]"
| "ms ci inp Bol st = (if length (fst st) = length inp then [st] else [])"
| "ms ci inp (Chr p) st =
     (case fst st of
        [] \<Rightarrow> []
      | x # xs \<Rightarrow> if canonicalize ci x = canonicalize ci p then [(xs, snd st)] else [])"
| "ms ci inp (Cls P) st =
     (case fst st of
        [] \<Rightarrow> []
      | x # xs \<Rightarrow> if clsMatch ci P x then [(xs, snd st)] else [])"
| "ms ci inp (Seq r1 r2) st = concat (map (ms ci inp r2) (ms ci inp r1 st))"
| "ms ci inp (Alt r1 r2) st = ms ci inp r1 st @ ms ci inp r2 st"
| "ms ci inp (Star r) st =
     concat (map (ms ci inp (Star r)) (filter (progress st) (ms ci inp r (reset r st)))) @ [st]"
| "ms ci inp (Plus r) st = concat (map (ms ci inp (Star r)) (ms ci inp r (reset r st)))"
| "ms ci inp (Opt r) st = filter (progress st) (ms ci inp r (reset r st)) @ [st]"
| "ms ci inp (Grp k r) st = map (capture k st) (ms ci inp r st)"
  by pat_completeness auto
termination
  by (relation "inv_image (less_than <*lex*> less_than)
        (\<lambda>(ci, inp, r, st). (weight r, length (fst st)))")
     (auto simp: progress_def reset_def)

text \<open>
  A pattern is tried at each start position from the left; the first start position
  with a match gives the result, and there the first end state of the matcher.
\<close>

fun search :: "bool \<Rightarrow> ustring \<Rightarrow> re \<Rightarrow> ustring \<Rightarrow> mstate option" where
  "search ci inp r [] =
     (case ms ci inp r ([], \<lambda>k. None) of [] \<Rightarrow> None | st # _ \<Rightarrow> Some st)"
| "search ci inp r (x # xs) =
     (case ms ci inp r (x # xs, \<lambda>k. None) of [] \<Rightarrow> search ci inp r xs | st # _ \<Rightarrow> Some st)"

definition exec :: "bool \<Rightarrow> re \<Rightarrow> ustring \<Rightarrow> mstate option" where
  "exec ci r inp = search ci inp r inp"

text \<open>\<open>regex.test(line)\<close>.\<close>

definition test :: "bool \<Rightarrow> re \<Rightarrow> ustring \<Rightarrow> bool" where
  "test ci r inp = (exec ci r inp \<noteq> None)"

text \<open>
  \<open>line.match(regex)\<close> followed by \<open>match[k]\<close>: \<open>None\<close> stands for the \<open>null\<close>
  of no match and for the \<open>undefined\<close> of a group that took no part, which the callers
  treat alike.
\<close>

definition match_group :: "bool \<Rightarrow> re \<Rightarrow> nat \<Rightarrow> ustring \<Rightarrow> ustring option" where
  "match_group ci r k inp = (case exec ci r inp of None \<Rightarrow> None | Some st \<Rightarrow> snd st k)"

fun seqs :: "re list \<Rightarrow> re" where
  "seqs [] = Eps"
| "seqs [r] = r"
| "seqs (r # rs) = Seq r (seqs rs)"

fun alts :: "re list \<Rightarrow> re" where
  "alts [] = Cls (\<lambda>x. False)"
| "alts [r] = r"
| "alts (r # rs) = Alt r (alts rs)"

definition lit :: "string \<Rightarrow> re" where
  "lit s = seqs (map (\<lambda>c. Chr (cu c)) s)"

abbreviation ws :: re where
  "ws \<equiv> Cls isWhiteSpace"

abbreviation wd :: re where
  "wd \<equiv> Cls isWordChar"

section \<open>The patterns of the action\<close>

text \<open>
  \<open>/^(function\s+\w+|const\s+\w+\s*=\s*\(|\w+\s*\(|async\s+function|\w+\s*:\s*function|export\s+function|function\s*\*)/i\<close>
\<close>

definition fnPattern1 :: re where
  "fnPattern1 = seqs [Bol, Grp 1 (alts [
      seqs [lit ''function'', Plus ws, Plus wd],
      seqs [lit ''const'', Plus ws, Plus wd, Star ws, lit ''='', Star ws, lit ''(''],
      seqs [Plus wd, Star ws, lit ''(''],
      seqs [lit ''async'', Plus ws, lit ''function''],
      seqs [Plus wd, Star ws, lit '':'', Star ws, lit ''function''],
      seqs [lit ''export'', Plus ws, lit ''function''],
      seqs [lit ''function'', Star ws, lit ''*'']])]"

text \<open>\<open>/^(public|private|protected)?\s*(static\s+)?[\w<>]+\s+\w+\s*\(/i\<close>\<close>

definition fnPattern2 :: re where
  "fnPattern2 = seqs [Bol,
      Opt (Grp 1 (alts [lit ''public'', lit ''private'', lit ''protected''])),
      Star ws,
      Opt (Grp 2 (seqs [lit ''static'', Plus ws])),
      Plus (Cls isWordOrAngle), Plus ws, Plus wd, Star ws, lit ''('']"

text \<open>\<open>/^def\s+\w+\s*\(/i\<close>\<close>

definition fnPattern3 :: re where
  "fnPattern3 = seqs [Bol, lit ''def'', Plus ws, Plus wd, Star ws, lit ''('']"

text \<open>\<open>/function\s+(\w+)/i\<close>\<close>

definition namePattern1 :: re where
  "namePattern1 = seqs [lit ''function'', Plus ws, Grp 1 (Plus wd)]"

text \<open>\<open>/const\s+(\w+)\s*=/i\<close>\<close>

definition namePattern2 :: re where
  "namePattern2 = seqs [lit ''const'', Plus ws, Grp 1 (Plus wd), Star ws, lit ''='']"

text \<open>\<open>/(\w+)\s*\(/\<close>\<close>

definition namePattern3 :: re where
  "namePattern3 = seqs [Grp 1 (Plus wd), Star ws, lit ''('']"

text \<open>\<open>/[\w<>]+\s+(\w+)\s*\(/\<close>\<close>

definition namePattern4 :: re where
  "namePattern4 = seqs [Plus (Cls isWordOrAngle), Plus ws, Grp 1 (Plus wd), Star ws, lit ''('']"

text \<open>\<open>/def\s+(\w+)\s*\(/i\<close>\<close>

definition namePattern5 :: re where
  "namePattern5 = seqs [lit ''def'', Plus ws, Grp 1 (Plus wd), Star ws, lit ''('']"

text \<open>\<open>/^(var|let|const|int|string|boolean|double|float|char)\s+\w+/i\<close>\<close>

definition varPattern1 :: re where
  "varPattern1 = seqs [Bol,
      Grp 1 (alts [lit ''var'', lit ''let'', lit ''const'', lit ''int'', lit ''string'',
                   lit ''boolean'', lit ''double'', lit ''float'', lit ''char'']),
      Plus ws, Plus wd]"

text \<open>\<open>/^(public|private|protected)?\s*(static\s+)?[\w<>]+\s+\w+\s*[=;]/i\<close>\<close>

definition varPattern2 :: re where
  "varPattern2 = seqs [Bol,
      Opt (Grp 1 (alts [lit ''public'', lit ''private'', lit ''protected''])),
      Star ws,
      Opt (Grp 2 (seqs [lit ''static'', Plus ws])),
      Plus (Cls isWordOrAngle), Plus ws, Plus wd, Star ws, Cls (oneOf ''=;'')]"

text \<open>\<open>/(?:var|let|const|int|string|boolean|double|float|char)\s+(\w+)/i\<close>\<close>

definition varNamePattern1 :: re where
  "varNamePattern1 = seqs [
      alts [lit ''var'', lit ''let'', lit ''const'', lit ''int'', lit ''string'',
            lit ''boolean'', lit ''double'', lit ''float'', lit ''char''],
      Plus ws, Grp 1 (Plus wd)]"

text \<open>\<open>/[\w<>]+\s+(\w+)\s*[=;]/\<close>\<close>

definition varNamePattern2 :: re where
  "varNamePattern2 =
     seqs [Plus (Cls isWordOrAngle), Plus ws, Grp 1 (Plus wd), Star ws, Cls (oneOf ''=;'')]"

text \<open>\<open>/^(class|interface|struct|enum)\s+\w+/i\<close>\<close>

definition classPattern1 :: re where
  "classPattern1 = seqs [Bol,
      Grp 1 (alts [lit ''class'', lit ''interface'', lit ''struct'', lit ''enum'']),
      Plus ws, Plus wd]"

text \<open>\<open>/^(public|private|protected)?\s*(abstract\s+)?class\s+\w+/i\<close>\<close>

definition classPattern2 :: re where
  "classPattern2 = seqs [Bol,
      Opt (Grp 1 (alts [lit ''public'', lit ''private'', lit ''protected''])),
      Star ws,
      Opt (Grp 2 (seqs [lit ''abstract'', Plus ws])),
      lit ''class'', Plus ws, Plus wd]"

text \<open>\<open>/(?:class|interface|struct|enum)\s+(\w+)/i\<close>\<close>

definition classNamePattern :: re where
  "classNamePattern = seqs [
      alts [lit ''class'', lit ''interface'', lit ''struct'', lit ''enum''],
      Plus ws, Grp 1 (Plus wd)]"

text \<open>\<open>/^(import|export|from|require)\s/i\<close>\<close>

definition importPattern :: re where
  "importPattern = seqs [Bol,
      Grp 1 (alts [lit ''import'', lit ''export'', lit ''from'', lit ''require'']), ws]"

text \<open>\<open>/^(if|else|for|while|do|switch|case|try|catch|finally)\s*[\(\{]/i\<close>\<close>

definition controlPattern :: re where
  "controlPattern = seqs [Bol,
      Grp 1 (alts [lit ''if'', lit ''else'', lit ''for'', lit ''while'', lit ''do'',
                   lit ''switch'', lit ''case'', lit ''try'', lit ''catch'', lit ''finally'']),
      Star ws, Cls (oneOf ''({'')]"

text \<open>
  The patterns of \<open>getControlFlowType\<close>, \<open>/^if\s*\(/i\<close> to \<open>/^try\s*\{/i\<close>: a keyword,
  white space, a bracket.
\<close>

definition keywordPattern :: "string \<Rightarrow> char \<Rightarrow> re" where
  "keywordPattern kw b = seqs [Bol, lit kw, Star ws, Chr (cu b)]"

section \<open>Analysis of a line\<close>

definition isFunctionDeclaration :: "ustring \<Rightarrow> bool" where
  "isFunctionDeclaration line =
     (test True fnPattern1 line \<or> test True fnPattern2 line \<or> test True fnPattern3 line)"

text \<open>\<open>line.match(regex)\<close>: \<open>None\<close> for \<open>null\<close>, else the captures of the match.\<close>

definition match :: "bool \<Rightarrow> re \<Rightarrow> ustring \<Rightarrow> caps option" where
  "match ci r line = map_option snd (exec ci r line)"

text \<open>
  In the results of the extractors \<open>None\<close> stands for \<open>null\<close> (and for an undefined
  group); the callers only ask whether the result is truthy.
\<close>

definition extractFunctionName :: "ustring \<Rightarrow> ustring option" where
  "extractFunctionName line =
     (case match True namePattern1 line of Some m \<Rightarrow> m 1 | None \<Rightarrow>
      (case match True namePattern2 line of Some m \<Rightarrow> m 1 | None \<Rightarrow>
      (case match False namePattern3 line of Some m \<Rightarrow> m 1 | None \<Rightarrow>
      (case match False namePattern4 line of Some m \<Rightarrow> m 1 | None \<Rightarrow>
      (case match True namePattern5 line of Some m \<Rightarrow> m 1 | None \<Rightarrow> None)))))"

definition isVariableDeclaration :: "ustring \<Rightarrow> bool" where
  "isVariableDeclaration line = (test True varPattern1 line \<or> test True varPattern2 line)"

definition extractVariableName :: "ustring \<Rightarrow> ustring option" where
  "extractVariableName line =
     (case match True varNamePattern1 line of Some m \<Rightarrow> m 1 | None \<Rightarrow>
      (case match False varNamePattern2 line of Some m \<Rightarrow> m 1 | None \<Rightarrow> None))"

definition isClassDeclaration :: "ustring \<Rightarrow> bool" where
  "isClassDeclaration line = (test True classPattern1 line \<or> test True classPattern2 line)"

definition extractClassName :: "ustring \<Rightarrow> ustring option" where
  "extractClassName line =
     (case match True classNamePattern line of Some m \<Rightarrow> m 1 | None \<Rightarrow> None)"

definition isImportExport :: "ustring \<Rightarrow> bool" where
  "isImportExport line = test True importPattern line"

definition isControlFlow :: "ustring \<Rightarrow> bool" where
  "isControlFlow line = test True controlPattern line"

definition getControlFlowType :: "ustring \<Rightarrow> ustring" where
  "getControlFlowType line =
     (if test True (keywordPattern ''if'' CHR ''('') line then js ''Conditional''
      else if test True (keywordPattern ''for'' CHR ''('') line then js ''Loop''
      else if test True (keywordPattern ''while'' CHR ''('') line then js ''Loop''
      else if test True (keywordPattern ''switch'' CHR ''('') line then js ''Switch''
      else if test True (keywordPattern ''try'' CHR ''{'') line then js ''Error handling''
      else js ''Control flow'')"

section \<open>The comment\<close>

text \<open>
  The template \<open>`// ${name ? `<label>${name}` : '<fallback>'}`\<close>; a name is truthy
  when it is a string that is not empty.
\<close>

definition describe :: "string \<Rightarrow> string \<Rightarrow> ustring option \<Rightarrow> ustring" where
  "describe label fallback name =
     js ''// '' @
     (case name of
        None \<Rightarrow> js fallback
      | Some n \<Rightarrow> if n \<noteq> [] then js label @ n else js fallback)"

text \<open>The cascade of \<open>generateCommentForCurrentContext\<close> on the trimmed line.\<close>

definition contextComment :: "ustring \<Rightarrow> ustring" where
  "contextComment trimmedLine =
     (if isFunctionDeclaration trimmedLine then
        describe ''Function: '' ''Function definition'' (extractFunctionName trimmedLine)
      else if isVariableDeclaration trimmedLine then
        describe ''Variable: '' ''Variable declaration'' (extractVariableName trimmedLine)
      else if isClassDeclaration trimmedLine then
        describe ''Class: '' ''Class definition'' (extractClassName trimmedLine)
      else if isImportExport trimmedLine then js ''// Module import/export''
      else if isControlFlow trimmedLine then
        js ''// '' @ getControlFlowType trimmedLine @ js '' statement''
      else js ''// TODO: Add description'')"

definition functionCount :: "ustring list \<Rightarrow> nat" where
  "functionCount lines = length (filter (\<lambda>line. isFunctionDeclaration (trim line)) lines)"

definition variableCount :: "ustring list \<Rightarrow> nat" where
  "variableCount lines = length (filter (\<lambda>line. isVariableDeclaration (trim line)) lines)"

text \<open>
  The branch of \<open>generateCommentForSelection\<close> for a selection of several lines.
\<close>

definition blockComment :: "ustring list \<Rightarrow> ustring" where
  "blockComment lines =
     (if functionCount lines > 0 then
        js ''// Code block with '' @ numberToString (functionCount lines) @ js '' function''
          @ (if functionCount lines > 1 then js ''s'' else [])
      else if variableCount lines > 0 then
        js ''// Code block with '' @ numberToString (variableCount lines) @ js '' variable''
          @ (if variableCount lines > 1 then js ''s'' else [])
      else js ''// Code block ('' @ numberToString (length lines) @ js '' lines)'')"

text \<open>The comment of \<open>generateCommentForSelection\<close> for the selected text.\<close>

definition selectionComment :: "ustring \<Rightarrow> ustring" where
  "selectionComment selectedText =
     (let lines = split_lines selectedText in
      if length lines = 1 then
        (case lines of
           [] \<Rightarrow> []
         | line # _ \<Rightarrow>
             if isFunctionDeclaration (trim line) then
               describe ''Function: '' ''Function definition'' (extractFunctionName (trim line))
             else js ''// Selected code block'')
      else blockComment lines)"

section \<open>Placement\<close>

record position =
  lineNumber :: nat
  column :: nat

record textRange =
  startLineNumber :: nat
  startColumn :: nat
  endLineNumber :: nat
  endColumn :: nat

record textEdit =
  editRange :: textRange
  editText :: ustring

text \<open>
  What \<open>insertComment\<close> asks of the editor: the edits given to \<open>executeEdits\<close> and the
  position given to \<open>setPosition\<close>.
\<close>

record editorUpdate =
  executeEdits :: "textEdit list"
  setPosition :: position

definition indentation :: "ustring \<Rightarrow> ustring" where
  "indentation lineContent =
     take (length lineContent - length (trimStart lineContent)) lineContent"

text \<open>
  \<open>lineContent\<close> is the content of the line of \<open>position\<close>, as
  \<open>model.getLineContent(position.lineNumber)\<close> gives it.
\<close>

definition insertComment :: "ustring \<Rightarrow> position \<Rightarrow> ustring \<Rightarrow> editorUpdate" where
  "insertComment lineContent pos comment =
     (let insertPosition = \<lparr>lineNumber = lineNumber pos, column = 1\<rparr>;
          insertText = indentation lineContent @ comment @ [LF];
          newPosition = \<lparr>lineNumber = lineNumber pos,
                         column = length comment + length (indentation lineContent) + 1\<rparr>
      in \<lparr>executeEdits =
            [\<lparr>editRange = \<lparr>startLineNumber = lineNumber insertPosition,
                            startColumn = column insertPosition,
                            endLineNumber = lineNumber insertPosition,
                            endColumn = column insertPosition\<rparr>,
              editText = insertText\<rparr>],
          setPosition = newPosition\<rparr>)"

definition generateCommentForCurrentContext :: "ustring \<Rightarrow> position \<Rightarrow> editorUpdate" where
  "generateCommentForCurrentContext line pos = insertComment line pos (contextComment (trim line))"

text \<open>
  \<open>startLine\<close> is the content of the line on which the selection starts, \<open>start\<close> the
  start position of the selection and \<open>selectedText\<close> the text in its range.
\<close>

definition generateCommentForSelection :: "ustring \<Rightarrow> position \<Rightarrow> ustring \<Rightarrow> editorUpdate" where
  "generateCommentForSelection startLine start selectedText =
     insertComment startLine start (selectionComment selectedText)"

section \<open>The categories of the specification\<close>

text \<open>
  The specification names the branch that the cascade takes for a trimmed line.
\<close>

datatype category = Function | Variable | TypeDeclaration | ImportExport | ControlFlow | Generic

definition classify :: "ustring \<Rightarrow> category" where
  "classify trimmedLine =
     (if isFunctionDeclaration trimmedLine then Function
      else if isVariableDeclaration trimmedLine then Variable
      else if isClassDeclaration trimmedLine then TypeDeclaration
      else if isImportExport trimmedLine then ImportExport
      else if isControlFlow trimmedLine then ControlFlow
      else Generic)"

section \<open>Notions used in the statements and proofs\<close>

text \<open>
  A line starts with the keyword \<open>kw\<close> in any letter case, followed by white space
  (possibly none) and then the bracket \<open>b\<close>.
\<close>

definition startsKeyword :: "string \<Rightarrow> char \<Rightarrow> ustring \<Rightarrow> bool" where
  "startsKeyword kw b line =
     (map (canonicalize True) (take (length kw) line) = map (canonicalize True) (js kw)
      \<and> (case dropWhile isWhiteSpace (drop (length kw) line) of
            [] \<Rightarrow> False
          | x # _ \<Rightarrow> x = cu b))"

text \<open>An identifier: one or more word characters and nothing else.\<close>

definition isIdentifier :: "ustring \<Rightarrow> bool" where
  "isIdentifier n = (n \<noteq> [] \<and> list_all isWordChar n)"

definition capsOK :: "caps \<Rightarrow> bool" where
  "capsOK c = (\<forall>k n. c k = Some n \<longrightarrow> isIdentifier n)"

text \<open>Every capturing group of the pattern is \<open>(\w+)\<close>.\<close>

fun wordGroups :: "re \<Rightarrow> bool" where
  "wordGroups (Grp k r) = (r = Plus (Cls isWordChar))"
| "wordGroups (Seq r1 r2) = (wordGroups r1 \<and> wordGroups r2)"
| "wordGroups (Alt r1 r2) = (wordGroups r1 \<and> wordGroups r2)"
| "wordGroups (Star r) = wordGroups r"
| "wordGroups (Plus r) = wordGroups r"
| "wordGroups (Opt r) = wordGroups r"
| "wordGroups r = True"

section \<open>Evaluation\<close>

text \<open>
  The equations of the matcher are applied on demand only: as rewrite rules they would
  unfold a quantifier without end on an input that is not concrete.
\<close>

declare ms.simps [simp del]

lemmas pattern_defs = fnPattern1_def fnPattern2_def fnPattern3_def namePattern1_def
  namePattern2_def namePattern3_def namePattern4_def namePattern5_def varPattern1_def
  varPattern2_def varNamePattern1_def varNamePattern2_def classPattern1_def classPattern2_def
  classNamePattern_def importPattern_def controlPattern_def keywordPattern_def

lemmas engine_defs = ms.simps test_def exec_def match_def js_def cu_def isWordChar_def
  isWhiteSpace_def isWordOrAngle_def oneOf_def canonicalize_def clsMatch_def Let_def
  progress_def reset_def capture_def lit_def trim_def trimStart_def trimEnd_def LF_def

lemmas analysis_defs = isFunctionDeclaration_def isVariableDeclaration_def
  isClassDeclaration_def isImportExport_def isControlFlow_def extractFunctionName_def
  extractVariableName_def extractClassName_def getControlFlowType_def

lemmas comment_defs = contextComment_def selectionComment_def blockComment_def
  functionCount_def variableCount_def describe_def classify_def numberToString.simps

section \<open>Lines and indentation\<close>

lemma split_lines_not_Nil: "split_lines t \<noteq> []"
  by (induction t) (auto split: list.splits)

lemma split_lines_single: "LF \<notin> set t \<Longrightarrow> split_lines t = [t]"
  by (induction t) auto

lemma split_lines_length: "length (split_lines t) = Suc (length (filter (\<lambda>x. x = LF) t))"
  by (induction t) (auto split: list.splits simp: split_lines_not_Nil)

lemma indentation_takeWhile: "indentation line = takeWhile isWhiteSpace line"
proof -
  have "length line = length (takeWhile isWhiteSpace line) + length (dropWhile isWhiteSpace line)"
    by (metis length_append takeWhile_dropWhile_id)
  then have "length line - length (dropWhile isWhiteSpace line)
      = length (takeWhile isWhiteSpace line)"
    by simp
  moreover have "take (length (takeWhile isWhiteSpace line)) line = takeWhile isWhiteSpace line"
    by (metis append_eq_conv_conj takeWhile_dropWhile_id)
  ultimately show ?thesis
    by (simp add: indentation_def trimStart_def)
qed

lemma filter_length_mset: "mset xs = mset ys \<Longrightarrow> length (filter P xs) = length (filter P ys)"
  by (metis mset_filter size_mset)

section \<open>The matcher on the forms of the patterns\<close>

lemma ms_Star:
  "st' \<in> set (ms ci inp (Star r) st) \<longleftrightarrow>
     st' = st \<or> (\<exists>st1 \<in> set (ms ci inp r (reset r st)).
                    progress st st1 \<and> st' \<in> set (ms ci inp (Star r) st1))"
  by (subst ms.simps(7)) auto

lemma ms_Plus:
  "st' \<in> set (ms ci inp (Plus r) st) \<longleftrightarrow>
     (\<exists>st1 \<in> set (ms ci inp r (reset r st)). st' \<in> set (ms ci inp (Star r) st1))"
  by (subst ms.simps(8)) auto

lemma ms_Seq:
  "st' \<in> set (ms ci inp (Seq r1 r2) st) \<longleftrightarrow>
     (\<exists>st1 \<in> set (ms ci inp r1 st). st' \<in> set (ms ci inp r2 st1))"
  by (subst ms.simps(5)) auto

lemma ms_Alt:
  "st' \<in> set (ms ci inp (Alt r1 r2) st) \<longleftrightarrow>
     st' \<in> set (ms ci inp r1 st) \<or> st' \<in> set (ms ci inp r2 st)"
  by (subst ms.simps(6)) auto

lemma ms_Opt:
  "st' \<in> set (ms ci inp (Opt r) st) \<longleftrightarrow>
     st' = st \<or> (st' \<in> set (ms ci inp r (reset r st)) \<and> progress st st')"
  by (subst ms.simps(9)) auto

lemma ms_Grp:
  "st' \<in> set (ms ci inp (Grp k r) st) \<longleftrightarrow>
     (\<exists>st1 \<in> set (ms ci inp r st). st' = capture k st st1)"
  by (subst ms.simps(10)) auto

lemma clsMatch_word [simp]: "clsMatch ci isWordChar x = isWordChar x"
  by (auto simp: clsMatch_def canonicalize_def isWordChar_def Let_def)

lemma clsMatch_word_eta [simp]: "clsMatch ci isWordChar = isWordChar"
  by (rule ext) simp

lemma clsMatch_space [simp]: "clsMatch ci isWhiteSpace x = isWhiteSpace x"
  by (auto simp: clsMatch_def canonicalize_def isWhiteSpace_def Let_def)

lemma ms_star_cls:
  "ms ci inp (Star (Cls P)) (s, c) =
     (case s of
        [] \<Rightarrow> [([], c)]
      | x # xs \<Rightarrow> if clsMatch ci P x then ms ci inp (Star (Cls P)) (xs, c) @ [(x # xs, c)]
                  else [(x # xs, c)])"
  by (subst ms.simps(7)) (simp add: ms.simps(4) reset_def progress_def split: list.splits)

lemma ms_plus_cls:
  "ms ci inp (Plus (Cls P)) (s, c) =
     (case s of
        [] \<Rightarrow> []
      | x # xs \<Rightarrow> if clsMatch ci P x then ms ci inp (Star (Cls P)) (xs, c) else [])"
  by (cases s) (simp_all add: ms.simps(8) ms.simps(4) reset_def)

lemma star_cls_sound:
  "st' \<in> set (ms ci inp (Star (Cls P)) (s, c)) \<Longrightarrow>
     \<exists>w. s = w @ fst st' \<and> list_all (clsMatch ci P) w \<and> snd st' = c"
proof (induction s arbitrary: st')
  case Nil
  then show ?case by (simp add: ms_star_cls)
next
  case (Cons x xs)
  show ?case
  proof (cases "st' = (x # xs, c)")
    case True
    then show ?thesis by simp
  next
    case False
    with Cons.prems have m: "clsMatch ci P x"
      and "st' \<in> set (ms ci inp (Star (Cls P)) (xs, c))"
      by (auto simp: ms_star_cls [of ci inp P "x # xs"] split: if_splits)
    then obtain w where "xs = w @ fst st'" "list_all (clsMatch ci P) w" "snd st' = c"
      using Cons.IH by blast
    with m have "x # xs = (x # w) @ fst st' \<and> list_all (clsMatch ci P) (x # w) \<and> snd st' = c"
      by simp
    then show ?thesis by blast
  qed
qed

lemma plus_cls_sound:
  assumes "st' \<in> set (ms ci inp (Plus (Cls P)) (s, c))"
  shows "\<exists>w. s = w @ fst st' \<and> w \<noteq> [] \<and> list_all (clsMatch ci P) w \<and> snd st' = c"
proof (cases s)
  case Nil
  with assms show ?thesis by (simp add: ms_plus_cls)
next
  case (Cons x xs)
  with assms have m: "clsMatch ci P x" and "st' \<in> set (ms ci inp (Star (Cls P)) (xs, c))"
    by (auto simp: ms_plus_cls split: if_splits)
  then obtain w where "xs = w @ fst st'" "list_all (clsMatch ci P) w" "snd st' = c"
    using star_cls_sound by blast
  with m Cons have "s = (x # w) @ fst st' \<and> x # w \<noteq> []
      \<and> list_all (clsMatch ci P) (x # w) \<and> snd st' = c"
    by simp
  then show ?thesis by blast
qed

section \<open>What a group captures\<close>

lemma capture_word:
  assumes "st' \<in> set (ms ci inp (Plus (Cls isWordChar)) st)" and "capsOK (snd st)"
  shows "capsOK (snd (capture k st st'))"
proof -
  obtain s c where st: "st = (s, c)" by (cases st)
  from assms(1) obtain w where w: "s = w @ fst st'" "w \<noteq> []" "list_all isWordChar w"
      "snd st' = c"
    using plus_cls_sound [of st' ci inp isWordChar s c] unfolding st by auto
  have "take (length s - length (fst st')) s = w"
    using w(1) by simp
  then show ?thesis
    using assms(2) w by (auto simp: capture_def capsOK_def st isIdentifier_def)
qed

lemma capsOK_reset: "capsOK (snd st) \<Longrightarrow> capsOK (snd (reset r st))"
  by (auto simp: capsOK_def reset_def split: if_splits)

lemma ms_capsOK:
  "wordGroups r \<Longrightarrow> capsOK (snd st) \<Longrightarrow> st' \<in> set (ms ci inp r st) \<Longrightarrow> capsOK (snd st')"
proof (induction ci inp r st arbitrary: st' rule: ms.induct)
  case (1 ci inp st)
  then show ?case by (simp add: ms.simps(1))
next
  case (2 ci inp st)
  then show ?case by (simp add: ms.simps(2) split: if_splits)
next
  case (3 ci inp p st)
  then show ?case by (auto simp: ms.simps(3) split: list.splits if_splits)
next
  case (4 ci inp P st)
  then show ?case by (auto simp: ms.simps(4) split: list.splits if_splits)
next
  case (5 ci inp r1 r2 st)
  from "5.prems" obtain st1 where "st1 \<in> set (ms ci inp r1 st)" "st' \<in> set (ms ci inp r2 st1)"
    by (auto simp: ms_Seq)
  with 5 show ?case by (metis wordGroups.simps(2))
next
  case (6 ci inp r1 r2 st)
  from "6.prems" have "st' \<in> set (ms ci inp r1 st) \<or> st' \<in> set (ms ci inp r2 st)"
    by (simp add: ms_Alt)
  then show ?case
    using "6.IH"(1) [of st'] "6.IH"(2) [of st'] "6.prems" by auto
next
  case (7 ci inp r st)
  show ?case
  proof (cases "st' = st")
    case True
    with "7.prems" show ?thesis by simp
  next
    case False
    with "7.prems" obtain st1 where a: "st1 \<in> set (ms ci inp r (reset r st))" "progress st st1"
      "st' \<in> set (ms ci inp (Star r) st1)"
      using ms_Star [of st' ci inp r st] by auto
    have "capsOK (snd st1)"
      using "7.IH"(1) [of st1] "7.prems" a(1) capsOK_reset by simp
    then show ?thesis
      using "7.IH"(2) [of st1 st'] a "7.prems" by simp
  qed
next
  case (8 ci inp r st)
  from "8.prems" obtain st1 where a: "st1 \<in> set (ms ci inp r (reset r st))"
      "st' \<in> set (ms ci inp (Star r) st1)"
    by (auto simp: ms_Plus)
  have "capsOK (snd st1)"
    using "8.IH"(1) [of st1] "8.prems" a(1) capsOK_reset by simp
  then show ?case
    using "8.IH"(2) [of st1 st'] a "8.prems" by simp
next
  case (9 ci inp r st)
  from "9.prems" have "st' = st \<or> st' \<in> set (ms ci inp r (reset r st))"
    by (auto simp: ms_Opt)
  then show ?case
    using "9.IH" [of st'] "9.prems" capsOK_reset [of st r] by auto
next
  case (10 ci inp k r st)
  from "10.prems" have r: "r = Plus (Cls isWordChar)" by simp
  from "10.prems" obtain st1 where "st1 \<in> set (ms ci inp r st)" "st' = capture k st st1"
    by (auto simp: ms_Grp)
  then show ?case
    using capture_word [of st1 ci inp st k] "10.prems"(2) r by simp
qed

lemma search_Some:
  "search ci inp r s = Some st \<Longrightarrow> \<exists>s'. st \<in> set (ms ci inp r (s', \<lambda>k. None))"
proof (induction s)
  case Nil
  then show ?case
    by (cases "ms ci inp r ([], \<lambda>k. None)") (auto intro: exI [of _ "[]"])
next
  case (Cons x xs)
  show ?case
  proof (cases "ms ci inp r (x # xs, \<lambda>k. None)")
    case Nil
    with Cons show ?thesis by simp
  next
    case (Cons st1 sts)
    with Cons.prems have "st \<in> set (ms ci inp r (x # xs, \<lambda>k. None))" by simp
    then show ?thesis by blast
  qed
qed

lemma match_capsOK:
  assumes "wordGroups r" and "match ci r line = Some m"
  shows "capsOK m"
proof -
  from assms(2) obtain st where st: "exec ci r line = Some st" "m = snd st"
    by (auto simp: match_def)
  then obtain s' where "st \<in> set (ms ci line r (s', \<lambda>k. None))"
    using search_Some unfolding exec_def by blast
  moreover have "capsOK (snd (s', (\<lambda>k. None) :: caps))"
    by (simp add: capsOK_def)
  ultimately show ?thesis
    using ms_capsOK [OF assms(1)] st(2) by blast
qed

lemma match_identifier:
  "wordGroups r \<Longrightarrow> match ci r line = Some m \<Longrightarrow> m k = Some n \<Longrightarrow> isIdentifier n"
  using match_capsOK unfolding capsOK_def by blast

lemma wordGroups_lit [simp]: "wordGroups (lit s)"
  unfolding lit_def by (induction s rule: induct_list012) auto

lemma wordGroups_names:
  "wordGroups namePattern1" "wordGroups namePattern2" "wordGroups namePattern3"
  "wordGroups namePattern4" "wordGroups namePattern5" "wordGroups varNamePattern1"
  "wordGroups varNamePattern2" "wordGroups classNamePattern"
  by (simp_all add: pattern_defs)

lemma extractFunctionName_identifier:
  "extractFunctionName line = Some n \<Longrightarrow> isIdentifier n"
  unfolding extractFunctionName_def
  by (auto split: option.splits dest: match_identifier [OF wordGroups_names(1)]
        match_identifier [OF wordGroups_names(2)] match_identifier [OF wordGroups_names(3)]
        match_identifier [OF wordGroups_names(4)] match_identifier [OF wordGroups_names(5)])

lemma extractVariableName_identifier:
  "extractVariableName line = Some n \<Longrightarrow> isIdentifier n"
  unfolding extractVariableName_def
  by (auto split: option.splits dest: match_identifier [OF wordGroups_names(6)]
        match_identifier [OF wordGroups_names(7)])

lemma extractClassName_identifier:
  "extractClassName line = Some n \<Longrightarrow> isIdentifier n"
  unfolding extractClassName_def
  by (auto split: option.splits dest: match_identifier [OF wordGroups_names(8)])

lemma word_not_space: "isWordChar x \<Longrightarrow> \<not> isWhiteSpace x"
  by (auto simp: isWordChar_def isWhiteSpace_def)

section \<open>The keyword patterns\<close>

lemma ms_seqs_Cons:
  "ms ci inp (seqs (r # rs)) st = concat (map (ms ci inp (seqs rs)) (ms ci inp r st))"
proof (cases rs)
  case Nil
  have "concat (map (\<lambda>st. [st]) xs) = xs" for xs :: "mstate list"
    by (induction xs) auto
  then show ?thesis
    by (simp add: Nil ms.simps(1) [abs_def])
next
  case (Cons r' rs')
  then show ?thesis by (simp add: ms.simps(5))
qed

lemma ms_lit:
  "ms ci inp (lit kw) (s, c) =
     (if map (canonicalize ci) (take (length kw) s) = map (canonicalize ci) (js kw)
      then [(drop (length kw) s, c)] else [])"
proof (induction kw arbitrary: s)
  case Nil
  then show ?case by (simp add: lit_def js_def ms.simps(1))
next
  case (Cons k ks)
  have step: "ms ci inp (lit (k # ks)) (s, c) =
      concat (map (ms ci inp (lit ks)) (ms ci inp (Chr (cu k)) (s, c)))"
    by (simp add: lit_def ms_seqs_Cons)
  show ?case
  proof (cases s)
    case Nil
    show ?thesis
      unfolding step by (simp add: Nil ms.simps(3) js_def)
  next
    case s: (Cons x xs)
    show ?thesis
      unfolding step using Cons.IH [of xs] by (simp add: s ms.simps(3) js_def)
  qed
qed

lemma search_Bol_short:
  "length s < length inp \<Longrightarrow> search ci inp (Seq Bol r) s = None"
  by (induction s) (simp_all add: ms.simps(5) ms.simps(2))

lemma test_Bol:
  "test ci (Seq Bol r) line = (ms ci line r (line, \<lambda>k. None) \<noteq> [])"
proof (cases line)
  case Nil
  then show ?thesis
    by (simp add: test_def exec_def ms.simps(5) ms.simps(2) split: list.splits)
next
  case (Cons x xs)
  have "search ci (x # xs) (Seq Bol r) xs = None"
    by (rule search_Bol_short) simp
  then show ?thesis
    by (simp add: Cons test_def exec_def ms.simps(5) ms.simps(2) split: list.splits)
qed

lemma bracket_canonical:
  assumes "b \<in> {CHR ''('', CHR ''{''}"
  shows "(canonicalize ci x = canonicalize ci (cu b)) = (x = cu b)"
    and "\<not> isWhiteSpace (cu b)"
  using assms by (auto simp: canonicalize_def cu_def isWhiteSpace_def)

lemma ms_space_bracket:
  assumes "b \<in> {CHR ''('', CHR ''{''}"
  shows "(ms ci inp (Seq (Star ws) (Chr (cu b))) (s, c) \<noteq> []) =
           (case dropWhile isWhiteSpace s of [] \<Rightarrow> False | x # _ \<Rightarrow> x = cu b)"
proof (induction s)
  case Nil
  then show ?case
    by (simp add: ms.simps(5) ms_star_cls ms.simps(3))
next
  case (Cons x xs)
  show ?case
  proof (cases "isWhiteSpace x")
    case True
    then have "x \<noteq> cu b"
      using bracket_canonical(2) [OF assms] by auto
    then have "ms ci inp (Chr (cu b)) (x # xs, c) = []"
      by (simp add: ms.simps(3) bracket_canonical(1) [OF assms])
    then show ?thesis
      using Cons.IH True
      by (simp add: ms.simps(5) ms_star_cls [of ci inp isWhiteSpace "x # xs"])
  next
    case False
    then show ?thesis
      by (simp add: ms.simps(5) ms_star_cls [of ci inp isWhiteSpace "x # xs"] ms.simps(3)
            bracket_canonical(1) [OF assms])
  qed
qed

lemma test_keywordPattern:
  assumes "b \<in> {CHR ''('', CHR ''{''}"
  shows "test True (keywordPattern kw b) line = startsKeyword kw b line"
proof -
  have "keywordPattern kw b = Seq Bol (seqs [lit kw, Seq (Star ws) (Chr (cu b))])"
    by (simp add: keywordPattern_def)
  then have "test True (keywordPattern kw b) line =
      (ms True line (seqs [lit kw, Seq (Star ws) (Chr (cu b))]) (line, \<lambda>k. None) \<noteq> [])"
    by (simp only: test_Bol)
  also have "\<dots> = startsKeyword kw b line"
    using ms_space_bracket [OF assms, of True line "drop (length kw) line" "\<lambda>k. None"]
    by (simp add: ms.simps(5) [of True line "lit kw"] ms_lit startsKeyword_def)
  finally show ?thesis .
qed

section \<open>Keyword lines and the function rule\<close>

text \<open>
  A line that starts with a keyword followed by \<open>(\<close> has the form of a name followed
  by \<open>(\<close>, which the first function pattern accepts. Such a line is therefore taken
  by the function rule of the cascade, and of the kinds of \<open>getControlFlowType\<close> only
  \<open>Error handling\<close> and \<open>Control flow\<close> are given to a line that the cascade
  classifies as control flow.
\<close>

lemma star_cls_complete:
  "list_all (clsMatch ci P) w \<Longrightarrow> (s', c) \<in> set (ms ci inp (Star (Cls P)) (w @ s', c))"
proof (induction w)
  case Nil
  then show ?case by (simp add: ms_star_cls [of ci inp P s'] split: list.splits)
next
  case (Cons x w)
  then show ?case
    by (simp add: ms_star_cls [of ci inp P "x # w @ s'"])
qed

lemma plus_cls_complete:
  "w \<noteq> [] \<Longrightarrow> list_all (clsMatch ci P) w \<Longrightarrow>
     (s', c) \<in> set (ms ci inp (Plus (Cls P)) (w @ s', c))"
  by (cases w) (simp_all add: ms_plus_cls star_cls_complete)

lemma canonical_word:
  "canonicalize True x = canonicalize True y \<Longrightarrow> isWordChar y \<Longrightarrow> isWordChar x"
  by (auto simp: canonicalize_def isWordChar_def split: if_splits)

lemma canonical_words:
  "map (canonicalize True) xs = map (canonicalize True) ys \<Longrightarrow> list_all isWordChar ys \<Longrightarrow>
     list_all isWordChar xs"
proof (induction xs arbitrary: ys)
  case Nil
  then show ?case by simp
next
  case (Cons x xs)
  then obtain y ys' where "ys = y # ys'" by (cases ys) auto
  with Cons show ?case by (auto intro: canonical_word)
qed


lemma keyword_paren_is_function:
  assumes "startsKeyword kw CHR ''('' t" and "kw \<noteq> []" and "list_all isWordChar (js kw)"
  shows "isFunctionDeclaration t"
proof -
  let ?n = "length kw"
  let ?k = "take ?n t"
  let ?w = "takeWhile isWhiteSpace (drop ?n t)"
  from assms(1) have eq: "map (canonicalize True) ?k = map (canonicalize True) (js kw)"
    and br: "(case dropWhile isWhiteSpace (drop ?n t) of [] \<Rightarrow> False | x # _ \<Rightarrow> x = cu CHR ''('')"
    by (simp_all add: startsKeyword_def)
  from br obtain rest where rest: "dropWhile isWhiteSpace (drop ?n t) = cu CHR ''('' # rest"
    by (auto split: list.splits)
  have t: "t = ?k @ ?w @ cu CHR ''('' # rest"
    by (metis append_take_drop_id rest takeWhile_dropWhile_id)
  have "length ?k = length (js kw)"
    using eq by (metis length_map)
  then have k_ne: "?k \<noteq> []"
    using assms(2) by (auto simp: js_def)
  have k_word: "list_all (clsMatch True isWordChar) ?k"
    using canonical_words [OF eq assms(3)] by simp
  have w_space: "list_all (clsMatch True isWhiteSpace) ?w"
    by (simp add: list_all_iff) (metis set_takeWhileD)
  let ?c = "(\<lambda>k. None) :: caps"
  have 1: "(?w @ cu CHR ''('' # rest, ?c) \<in> set (ms True t (Plus wd) (?k @ ?w @ cu CHR ''('' # rest, ?c))"
    by (rule plus_cls_complete [OF k_ne k_word])
  have 2: "(cu CHR ''('' # rest, ?c) \<in> set (ms True t (Star ws) (?w @ cu CHR ''('' # rest, ?c))"
    by (rule star_cls_complete [OF w_space])
  have 3: "(rest, ?c) \<in> set (ms True t (lit ''('') (cu CHR ''('' # rest, ?c))"
    by (simp add: lit_def ms.simps(3))
  have "(rest, ?c) \<in> set (ms True t (seqs [Plus wd, Star ws, lit ''(''])
      (?k @ ?w @ cu CHR ''('' # rest, ?c))"
    using 1 2 3 by (auto simp: ms_Seq)
  then have "ms True t (seqs [Plus wd, Star ws, lit ''('']) (t, ?c) \<noteq> []"
    using t by (metis empty_iff empty_set)
  then have "test True fnPattern1 t"
    by (simp add: fnPattern1_def test_Bol ms.simps(10) ms.simps(6))
  then show ?thesis
    by (simp add: isFunctionDeclaration_def)
qed

lemma control_flow_kinds_reached:
  assumes "classify t = ControlFlow"
  shows "getControlFlowType t =
          (if startsKeyword ''try'' CHR ''{'' t then js ''Error handling'' else js ''Control flow'')"
proof -
  from assms have nf: "\<not> isFunctionDeclaration t"
    by (auto simp: classify_def split: if_splits)
  have "\<not> startsKeyword kw CHR ''('' t" if "kw \<in> {''if'', ''for'', ''while'', ''switch''}" for kw
    using that nf keyword_paren_is_function [of kw t]
    by (auto simp: js_def cu_def isWordChar_def)
  then show ?thesis
    by (simp add: getControlFlowType_def test_keywordPattern)
qed

section \<open>The claims\<close>

text \<open>
  C1. For the selection of the three lines \<open>if (condition) {\<close>, \<open>    doSomething();\<close>
  and \<open>}\<close> the claim expects no function line and the comment \<open>Code block (3 lines)\<close>.
  The action counts two function lines, since the first two lines have the form of a
  name followed by \<open>(\<close>, and writes \<open>Code block with 2 functions\<close>.
\<close>

theorem three_line_if_block_counts_two_functions:
  "split_lines (js ''if (condition) {'' @ [LF] @ js ''    doSomething();'' @ [LF] @ js ''}'')
     = [js ''if (condition) {'', js ''    doSomething();'', js ''}'']
   \<and> isFunctionDeclaration (trim (js ''if (condition) {''))
   \<and> isFunctionDeclaration (trim (js ''    doSomething();''))
   \<and> functionCount [js ''if (condition) {'', js ''    doSomething();'', js ''}''] = 2
   \<and> selectionComment
        (js ''if (condition) {'' @ [LF] @ js ''    doSomething();'' @ [LF] @ js ''}'')
       = js ''// Code block with 2 functions''
   \<and> selectionComment
        (js ''if (condition) {'' @ [LF] @ js ''    doSomething();'' @ [LF] @ js ''}'')
       \<noteq> js ''// Code block (3 lines)''"
  by (simp add: comment_defs analysis_defs pattern_defs engine_defs)

text \<open>
  C2. The line \<open>const userName = "John Doe";\<close> is not a function declaration: the
  arrow-assignment form needs \<open>(\<close> after the \<open>=\<close>, and no other function form
  matches. It is a variable declaration by the keyword-led form, the name captured is
  \<open>userName\<close>, and the comment is \<open>Variable: userName\<close>.
\<close>

theorem const_string_assignment_is_variable:
  "\<not> test True
       (seqs [Bol, lit ''const'', Plus ws, Plus wd, Star ws, lit ''='', Star ws, lit ''(''])
       (js ''const userName = \"John Doe\";'')
   \<and> \<not> isFunctionDeclaration (js ''const userName = \"John Doe\";'')
   \<and> test True varPattern1 (js ''const userName = \"John Doe\";'')
   \<and> isVariableDeclaration (js ''const userName = \"John Doe\";'')
   \<and> extractVariableName (js ''const userName = \"John Doe\";'') = Some (js ''userName'')
   \<and> classify (trim (js ''const userName = \"John Doe\";'')) = Variable
   \<and> contextComment (trim (js ''const userName = \"John Doe\";'')) = js ''// Variable: userName''"
  by (simp add: comment_defs analysis_defs pattern_defs engine_defs)

theorem const_string_assignment_is_variable_witness:
  "classify (trim (js ''const userName = \"John Doe\";'')) = Variable
   \<and> contextComment (trim (js ''const userName = \"John Doe\";'')) = js ''// Variable: userName''"
  using const_string_assignment_is_variable by blast

text \<open>
  C3. For a selection of more than one line with at least one function line the comment
  is \<open>Code block with n function\<close>, with \<open>s\<close> appended when \<open>n\<close> exceeds 1, where
  \<open>n\<close> is the number of function lines, whatever the number of variable lines; with two
  function lines it is \<open>Code block with 2 functions\<close>.
\<close>

theorem function_count_wins:
  assumes "length (split_lines selectedText) > 1"
    and "functionCount (split_lines selectedText) > 0"
  shows "selectionComment selectedText =
           js ''// Code block with '' @ numberToString (functionCount (split_lines selectedText))
             @ js '' function''
             @ (if functionCount (split_lines selectedText) > 1 then js ''s'' else [])
         \<and> (functionCount (split_lines selectedText) = 2 \<longrightarrow>
              selectionComment selectedText = js ''// Code block with 2 functions'')"
  using assms
  by (simp add: selectionComment_def blockComment_def Let_def numberToString.simps [of 2]
        js_def cu_def)

theorem function_count_wins_witness:
  "length (split_lines
      (js ''function a() {'' @ [LF] @ js ''let x = 1;'' @ [LF] @ js ''function b() {'')) > 1
   \<and> functionCount (split_lines
      (js ''function a() {'' @ [LF] @ js ''let x = 1;'' @ [LF] @ js ''function b() {'')) = 2
   \<and> variableCount (split_lines
      (js ''function a() {'' @ [LF] @ js ''let x = 1;'' @ [LF] @ js ''function b() {'')) = 1
   \<and> selectionComment
      (js ''function a() {'' @ [LF] @ js ''let x = 1;'' @ [LF] @ js ''function b() {'')
       = js ''// Code block with 2 functions''"
proof -
  let ?t = "js ''function a() {'' @ [LF] @ js ''let x = 1;'' @ [LF] @ js ''function b() {''"
  have l: "split_lines ?t = [js ''function a() {'', js ''let x = 1;'', js ''function b() {'']"
    by (simp add: engine_defs)
  have f: "functionCount (split_lines ?t) = 2"
    unfolding l by (simp add: comment_defs analysis_defs pattern_defs engine_defs)
  have v: "variableCount (split_lines ?t) = 1"
    unfolding l by (simp add: comment_defs analysis_defs pattern_defs engine_defs)
  have h1: "length (split_lines ?t) > 1" unfolding l by simp
  have h2: "functionCount (split_lines ?t) > 0" using f by simp
  show ?thesis
    using function_count_wins [OF h1 h2] f v h1 by blast
qed

text \<open>
  C4. The classification is total: the matcher terminates on every pattern and input
  and no step of the cascade can fail, so every trimmed line gets one of the six
  categories and the comment of that category; a line that no rule matches is Generic
  and gets \<open>TODO: Add description\<close>.
\<close>

theorem classify_total:
  "classify t \<in> {Function, Variable, TypeDeclaration, ImportExport, ControlFlow, Generic}
   \<and> contextComment t =
       (case classify t of
          Function \<Rightarrow> describe ''Function: '' ''Function definition'' (extractFunctionName t)
        | Variable \<Rightarrow> describe ''Variable: '' ''Variable declaration'' (extractVariableName t)
        | TypeDeclaration \<Rightarrow> describe ''Class: '' ''Class definition'' (extractClassName t)
        | ImportExport \<Rightarrow> js ''// Module import/export''
        | ControlFlow \<Rightarrow> js ''// '' @ getControlFlowType t @ js '' statement''
        | Generic \<Rightarrow> js ''// TODO: Add description'')
   \<and> (\<not> isFunctionDeclaration t \<and> \<not> isVariableDeclaration t \<and> \<not> isClassDeclaration t
        \<and> \<not> isImportExport t \<and> \<not> isControlFlow t
      \<longrightarrow> classify t = Generic \<and> contextComment t = js ''// TODO: Add description'')"
  by (cases "classify t") (auto simp: classify_def contextComment_def split: if_splits)

theorem classify_total_witness:
  "\<not> isFunctionDeclaration (js ''}'') \<and> \<not> isVariableDeclaration (js ''}'')
   \<and> \<not> isClassDeclaration (js ''}'') \<and> \<not> isImportExport (js ''}'')
   \<and> \<not> isControlFlow (js ''}'')
   \<and> classify (js ''}'') = Generic
   \<and> contextComment (js ''}'') = js ''// TODO: Add description''"
proof -
  have h: "\<not> isFunctionDeclaration (js ''}'') \<and> \<not> isVariableDeclaration (js ''}'')
      \<and> \<not> isClassDeclaration (js ''}'') \<and> \<not> isImportExport (js ''}'')
      \<and> \<not> isControlFlow (js ''}'')"
    by (simp add: analysis_defs pattern_defs engine_defs)
  show ?thesis
    using classify_total [of "js ''}''"] h by blast
qed

text \<open>
  C5. For every target line and comment body the text inserted is the indentation of
  the line, \<open>// \<close>, the body and a line feed, inserted at column 1 of the target line,
  and the caret goes to that line at column length of the indentation plus length of
  \<open>// \<close> and the body plus 1. For the line \<open>    const x = 1;\<close> and the body
  \<open>Variable: x\<close>, which is the comment the action makes for that line, the text is
  \<open>    // Variable: x\<close> with a line feed and the column is 4 + 14 + 1.
\<close>

theorem insertion_plan:
  "insertComment line pos (js ''// '' @ body) =
     \<lparr>executeEdits =
        [\<lparr>editRange = \<lparr>startLineNumber = lineNumber pos, startColumn = 1,
                        endLineNumber = lineNumber pos, endColumn = 1\<rparr>,
          editText = indentation line @ js ''// '' @ body @ [LF]\<rparr>],
      setPosition = \<lparr>lineNumber = lineNumber pos,
                     column = length (indentation line) + length (js ''// '' @ body) + 1\<rparr>\<rparr>
   \<and> insertComment (js ''    const x = 1;'') pos (js ''// '' @ js ''Variable: x'') =
     \<lparr>executeEdits =
        [\<lparr>editRange = \<lparr>startLineNumber = lineNumber pos, startColumn = 1,
                        endLineNumber = lineNumber pos, endColumn = 1\<rparr>,
          editText = js ''    // Variable: x'' @ [LF]\<rparr>],
      setPosition = \<lparr>lineNumber = lineNumber pos,
                     column = 4 + length (js ''// Variable: x'') + 1\<rparr>\<rparr>
   \<and> generateCommentForCurrentContext (js ''    const x = 1;'') pos =
       insertComment (js ''    const x = 1;'') pos (js ''// '' @ js ''Variable: x'')"
proof -
  have i: "indentation (js ''    const x = 1;'') = js ''    ''"
    by (simp add: indentation_def engine_defs)
  have c: "contextComment (trim (js ''    const x = 1;'')) = js ''// '' @ js ''Variable: x''"
    by (simp add: comment_defs analysis_defs pattern_defs engine_defs)
  show ?thesis
    by (simp add: insertComment_def Let_def i generateCommentForCurrentContext_def c)
       (simp add: js_def)
qed

text \<open>
  C6, as stated: the kind follows from the leading keyword alone, so a line classified
  as control flow that starts with \<open>for\<close> is a Loop. The line \<open>for {\<close> is classified
  as control flow and its kind is the generic \<open>Control flow\<close>.
\<close>

theorem for_brace_counterexample:
  "classify (js ''for {'') = ControlFlow
   \<and> startsKeyword ''for'' CHR ''{'' (js ''for {'')
   \<and> getControlFlowType (js ''for {'') = js ''Control flow''
   \<and> contextComment (js ''for {'') = js ''// Control flow statement''
   \<and> contextComment (js ''for {'') \<noteq> js ''// Loop statement''"
  by (simp add: startsKeyword_def comment_defs analysis_defs pattern_defs engine_defs)

text \<open>
  C6, amended. The kind is looked up on the leading keyword together with the bracket
  that follows it after optional white space: \<open>if\<close> and \<open>(\<close> give Conditional,
  \<open>for\<close> or \<open>while\<close> and \<open>(\<close> give Loop, \<open>switch\<close> and \<open>(\<close> give Switch,
  \<open>try\<close> and \<open>{\<close> give Error handling, and every other line gives the generic
  \<open>Control flow\<close>; for a line classified as control flow the comment is the kind
  followed by \<open>statement\<close>.
\<close>

theorem control_flow_kind:
  "getControlFlowType t =
     (if startsKeyword ''if'' CHR ''('' t then js ''Conditional''
      else if startsKeyword ''for'' CHR ''('' t \<or> startsKeyword ''while'' CHR ''('' t
        then js ''Loop''
      else if startsKeyword ''switch'' CHR ''('' t then js ''Switch''
      else if startsKeyword ''try'' CHR ''{'' t then js ''Error handling''
      else js ''Control flow'')
   \<and> (classify t = ControlFlow \<longrightarrow>
        contextComment t = js ''// '' @ getControlFlowType t @ js '' statement'')"
proof -
  have k: "test True (keywordPattern kw CHR ''('') t = startsKeyword kw CHR ''('' t"
      "test True (keywordPattern kw CHR ''{'') t = startsKeyword kw CHR ''{'' t" for kw
    by (simp_all add: test_keywordPattern)
  have "classify t = ControlFlow \<Longrightarrow>
      contextComment t = js ''// '' @ getControlFlowType t @ js '' statement''"
    by (auto simp: classify_def contextComment_def split: if_splits)
  then show ?thesis
    by (auto simp: getControlFlowType_def k)
qed

theorem control_flow_kind_witness:
  "classify (js ''try {'') = ControlFlow
   \<and> startsKeyword ''try'' CHR ''{'' (js ''try {'')
   \<and> getControlFlowType (js ''try {'') = js ''Error handling''
   \<and> contextComment (js ''try {'') = js ''// Error handling statement''
   \<and> getControlFlowType (js ''if (x) {'') = js ''Conditional''
   \<and> getControlFlowType (js ''else {'') = js ''Control flow''"
proof -
  have h: "classify (js ''try {'') = ControlFlow"
    by (simp add: comment_defs analysis_defs pattern_defs engine_defs)
  have s: "startsKeyword ''try'' CHR ''{'' (js ''try {'')"
      "\<not> startsKeyword ''if'' CHR ''('' (js ''try {'')"
      "\<not> startsKeyword ''for'' CHR ''('' (js ''try {'')"
      "\<not> startsKeyword ''while'' CHR ''('' (js ''try {'')"
      "\<not> startsKeyword ''switch'' CHR ''('' (js ''try {'')"
      "startsKeyword ''if'' CHR ''('' (js ''if (x) {'')"
      "\<not> startsKeyword ''if'' CHR ''('' (js ''else {'')"
      "\<not> startsKeyword ''for'' CHR ''('' (js ''else {'')"
      "\<not> startsKeyword ''while'' CHR ''('' (js ''else {'')"
      "\<not> startsKeyword ''switch'' CHR ''('' (js ''else {'')"
      "\<not> startsKeyword ''try'' CHR ''{'' (js ''else {'')"
    by (simp_all add: startsKeyword_def engine_defs)
  show ?thesis
    using control_flow_kind [of "js ''try {''"] control_flow_kind [of "js ''if (x) {''"]
      control_flow_kind [of "js ''else {''"] h s
    by (simp add: js_def)
qed

text \<open>
  C7, as stated: the indentation is empty when the line is blank. For the line of two
  spaces the indentation is the whole line.
\<close>

theorem indentation_blank_counterexample:
  "list_all isWhiteSpace (js ''  '') \<and> indentation (js ''  '') = js ''  ''
   \<and> indentation (js ''  '') \<noteq> []"
  by (simp add: indentation_def engine_defs)

text \<open>
  C7, amended. The indentation is the longest prefix of white space of the line: the
  line is the indentation followed by its \<open>trimStart\<close>, which is empty or starts with
  a character that is not white space. It is empty when the line is empty or starts
  with a character that is not white space, and it is the whole line when the line
  consists of white space only.
\<close>

theorem indentation_prefix:
  "indentation line @ trimStart line = line
   \<and> list_all isWhiteSpace (indentation line)
   \<and> (case trimStart line of [] \<Rightarrow> True | x # _ \<Rightarrow> \<not> isWhiteSpace x)
   \<and> indentation [] = []
   \<and> indentation (x # xs) = (if isWhiteSpace x then x # indentation xs else [])
   \<and> indentation line = (if list_all isWhiteSpace line then line else takeWhile isWhiteSpace line)"
proof -
  have a: "indentation line @ trimStart line = line"
    by (simp add: indentation_takeWhile trimStart_def)
  have b: "list_all isWhiteSpace (indentation line)"
    by (simp add: indentation_takeWhile list_all_iff) (metis set_takeWhileD)
  have c: "(case trimStart line of [] \<Rightarrow> True | x # _ \<Rightarrow> \<not> isWhiteSpace x)"
    by (metis (mono_tags, lifting) trimStart_def hd_dropWhile list.case_eq_if list.sel(1))
  have d: "list_all isWhiteSpace line \<Longrightarrow> takeWhile isWhiteSpace line = line"
    by (simp add: list_all_iff)
  show ?thesis
    using a b c d by (simp add: indentation_takeWhile)
qed

theorem indentation_prefix_witness:
  "indentation (js ''    const x = 1;'') = js ''    ''
   \<and> trimStart (js ''    const x = 1;'') = js ''const x = 1;''
   \<and> indentation (js ''const x = 1;'') = []"
  using indentation_prefix [of "js ''    const x = 1;''"]
  by (simp add: indentation_def engine_defs)

text \<open>
  C8. For a selected text without a line feed the comment is \<open>Function: name\<close> or
  \<open>Function definition\<close> when the trimmed text is a function declaration, and
  \<open>Selected code block\<close> otherwise, also for a text that the path without selection
  describes as a variable.
\<close>

theorem single_line_selection:
  assumes "LF \<notin> set selectedText"
  shows "selectionComment selectedText =
          (if isFunctionDeclaration (trim selectedText)
           then describe ''Function: '' ''Function definition''
                  (extractFunctionName (trim selectedText))
           else js ''// Selected code block'')
       \<and> (isFunctionDeclaration (trim selectedText) \<longrightarrow>
            (\<exists>name. selectionComment selectedText = js ''// Function: '' @ name)
            \<or> selectionComment selectedText = js ''// Function definition'')"
  using assms
  by (auto simp: selectionComment_def split_lines_single describe_def js_def split: option.splits)

theorem single_line_selection_witness:
  "LF \<notin> set (js ''const x = 1;'')
   \<and> \<not> isFunctionDeclaration (trim (js ''const x = 1;''))
   \<and> selectionComment (js ''const x = 1;'') = js ''// Selected code block''
   \<and> contextComment (trim (js ''const x = 1;'')) = js ''// Variable: x''
   \<and> LF \<notin> set (js ''function f() {'')
   \<and> selectionComment (js ''function f() {'') = js ''// Function: f''"
proof -
  have h1: "LF \<notin> set (js ''const x = 1;'')" and h2: "LF \<notin> set (js ''function f() {'')"
    by (simp_all add: engine_defs)
  have n: "\<not> isFunctionDeclaration (trim (js ''const x = 1;''))"
    by (simp add: analysis_defs pattern_defs engine_defs)
  have v: "contextComment (trim (js ''const x = 1;'')) = js ''// Variable: x''"
    by (simp add: comment_defs analysis_defs pattern_defs engine_defs)
  have f: "isFunctionDeclaration (trim (js ''function f() {''))"
    by (simp add: analysis_defs pattern_defs engine_defs)
  have e: "describe ''Function: '' ''Function definition''
      (extractFunctionName (trim (js ''function f() {''))) = js ''// Function: f''"
    by (simp add: comment_defs analysis_defs pattern_defs engine_defs)
  show ?thesis
    using single_line_selection [OF h1] single_line_selection [OF h2] h1 h2 n v f e by simp
qed

text \<open>
  C9. The tally does not depend on the order of the lines: two selections of more than
  one line whose lines are permutations of each other have the same number of function
  lines, of variable lines and of lines, and the same comment.
\<close>

theorem tally_order_independent:
  assumes "mset (split_lines t') = mset (split_lines t)"
    and "length (split_lines t) > 1"
  shows "functionCount (split_lines t') = functionCount (split_lines t)
       \<and> variableCount (split_lines t') = variableCount (split_lines t)
       \<and> length (split_lines t') = length (split_lines t)
       \<and> selectionComment t' = selectionComment t"
proof -
  have f: "functionCount (split_lines t') = functionCount (split_lines t)"
    unfolding functionCount_def by (rule filter_length_mset [OF assms(1)])
  have v: "variableCount (split_lines t') = variableCount (split_lines t)"
    unfolding variableCount_def by (rule filter_length_mset [OF assms(1)])
  have n: "length (split_lines t') = length (split_lines t)"
    by (metis assms(1) size_mset)
  show ?thesis
    using assms(2) by (simp add: f v n selectionComment_def blockComment_def Let_def)
qed

theorem tally_order_independent_witness:
  "mset (split_lines (js ''let a = 1;'' @ [LF] @ js ''function f() {''))
     = mset (split_lines (js ''function f() {'' @ [LF] @ js ''let a = 1;''))
   \<and> length (split_lines (js ''function f() {'' @ [LF] @ js ''let a = 1;'')) > 1
   \<and> split_lines (js ''let a = 1;'' @ [LF] @ js ''function f() {'')
       \<noteq> split_lines (js ''function f() {'' @ [LF] @ js ''let a = 1;'')
   \<and> selectionComment (js ''let a = 1;'' @ [LF] @ js ''function f() {'')
       = selectionComment (js ''function f() {'' @ [LF] @ js ''let a = 1;'')"
proof -
  let ?t' = "js ''let a = 1;'' @ [LF] @ js ''function f() {''"
  let ?t = "js ''function f() {'' @ [LF] @ js ''let a = 1;''"
  have l': "split_lines ?t' = [js ''let a = 1;'', js ''function f() {'']"
    by (simp add: engine_defs)
  have l: "split_lines ?t = [js ''function f() {'', js ''let a = 1;'']"
    by (simp add: engine_defs)
  have h1: "mset (split_lines ?t') = mset (split_lines ?t)"
    unfolding l l' by (simp add: add_mset_commute)
  have h2: "length (split_lines ?t) > 1"
    unfolding l by simp
  have d: "split_lines ?t' \<noteq> split_lines ?t"
    unfolding l l' by (simp add: js_def cu_def)
  show ?thesis
    using tally_order_independent [OF h1 h2] h1 h2 d by blast
qed

text \<open>
  C10. An identifier extracted for a function, a variable or a class is not empty and
  consists of word characters only, so it contains no white space; the extractors give
  such a name or none.
\<close>

theorem extracted_identifier_is_word:
  assumes "extractFunctionName line = Some n \<or> extractVariableName line = Some n
           \<or> extractClassName line = Some n"
  shows "n \<noteq> [] \<and> list_all isWordChar n \<and> list_all (\<lambda>x. \<not> isWhiteSpace x) n"
proof -
  have "isIdentifier n"
    using assms extractFunctionName_identifier extractVariableName_identifier
      extractClassName_identifier by blast
  then show ?thesis
    unfolding isIdentifier_def by (auto simp: list_all_iff word_not_space)
qed

theorem extracted_identifier_is_word_witness:
  "extractFunctionName (js ''function calculateSum(a, b) {'') = Some (js ''calculateSum'')
   \<and> js ''calculateSum'' \<noteq> [] \<and> list_all isWordChar (js ''calculateSum'')
   \<and> extractClassName (js ''x = 1'') = None"
proof -
  have h: "extractFunctionName (js ''function calculateSum(a, b) {'') = Some (js ''calculateSum'')"
    by (simp add: analysis_defs pattern_defs engine_defs)
  have e: "extractClassName (js ''x = 1'') = None"
    by (simp add: analysis_defs pattern_defs engine_defs)
  show ?thesis
    using extracted_identifier_is_word [of "js ''function calculateSum(a, b) {''" "js ''calculateSum''"]
      h e by blast
qed

end
